theory Spec2Isabelle
  imports Complex_Main
begin

section \<open>The licenses table\<close>

text \<open>
  The SQLAlchemy model \<open>License\<close> of \<open>backend/auth.py\<close>, one record per row.
  The primary key \<open>id\<close> is called \<open>id_pk\<close> here. Naive UTC datetimes are
  whole seconds since the epoch; \<open>timedelta\<close> values are seconds.
\<close>

type_synonym datetime = int

record license =
  id_pk :: nat
  user_id :: string
  email :: string
  plan_type :: string
  active :: bool
  notes_limit :: int
  notes_used :: int
  created_at :: datetime
  expires_at :: datetime
  stripe_customer_id :: string
  stripe_subscription_id :: string

text \<open>The table is the list of its rows, in insertion order.\<close>

type_synonym licenses = "license list"

definition timedelta_days :: "int \<Rightarrow> int" where
  "timedelta_days d = d * 86400"


text \<open>
  The schema's constraints: \<open>id\<close> is the primary key, \<open>user_id\<close> and
  \<open>email\<close> are declared \<open>unique=True\<close>.
\<close>

definition table_ok :: "licenses \<Rightarrow> bool" where
  "table_ok db \<longleftrightarrow>
     distinct (map id_pk db) \<and> distinct (map user_id db) \<and> distinct (map email db)"

text \<open>\<open>db.query(License).filter(P).first()\<close>: the first row satisfying \<open>P\<close>.\<close>

definition query_first :: "(license \<Rightarrow> bool) \<Rightarrow> licenses \<Rightarrow> license option" where
  "query_first P db = find P db"

text \<open>
  \<open>db.commit()\<close> after attributes of a loaded row object were assigned: the row
  with that primary key is rewritten.
\<close>

definition commit :: "license \<Rightarrow> licenses \<Rightarrow> licenses" where
  "commit l db = map (\<lambda>r. if id_pk r = id_pk l then l else r) db"

text \<open>The key an autoincrementing primary key gives the next inserted row.\<close>

definition next_id :: "licenses \<Rightarrow> nat" where
  "next_id db = Suc (foldr max (map id_pk db) 0)"

section \<open>Tokens\<close>

text \<open>
  The claims dictionary of a token, with the four keys \<open>create_token\<close> writes:
  \<open>sub\<close>, \<open>email\<close>, \<open>plan\<close>, \<open>exp\<close> (seconds since the epoch).
\<close>

record payload =
  sub :: string
  email_claim :: string
  plan :: string
  exp_claim :: int

text \<open>
  The \<open>jwt\<close> package is not part of the repository. Its two entry points and the
  module's settings read from the environment are parameters of the model:
  \<open>jwt_encode claims key algorithm\<close> and \<open>jwt_decode token key algorithms now\<close>,
  the latter returning \<open>Inl JWTError\<close> where the library raises;
  \<open>jwt.JWTError\<close>, which the handler of \<open>verify_token\<close> catches, is taken to be
  the class of the exceptions \<open>jwt.decode\<close> raises (\<open>now\<close> is the clock the
  library may consult).
\<close>

datatype jwt_error = JWTError

record settings =
  JWT_SECRET :: string
  JWT_ALGORITHM :: string
  JWT_EXPIRATION_MINUTES :: int
  jwt_encode :: "payload \<Rightarrow> string \<Rightarrow> string \<Rightarrow> string"
  jwt_decode :: "string \<Rightarrow> string \<Rightarrow> string list \<Rightarrow> datetime \<Rightarrow> jwt_error + payload"


section \<open>The gate: \<open>verify_token\<close>\<close>

text \<open>
  \<open>HTTPException(status_code, detail)\<close>; the constant \<open>WWW-Authenticate\<close> header
  is left out.
\<close>

datatype http_exception = HTTPException (status_code: nat) (detail: string)

definition HTTP_400_BAD_REQUEST :: nat where "HTTP_400_BAD_REQUEST = 400"
definition HTTP_401_UNAUTHORIZED :: nat where "HTTP_401_UNAUTHORIZED = 401"
definition HTTP_403_FORBIDDEN :: nat where "HTTP_403_FORBIDDEN = 403"
definition HTTP_429_TOO_MANY_REQUESTS :: nat where "HTTP_429_TOO_MANY_REQUESTS = 429"
definition HTTP_500_INTERNAL_SERVER_ERROR :: nat where "HTTP_500_INTERNAL_SERVER_ERROR = 500"

text \<open>
  \<open>datetime.fromtimestamp\<close>, read in a process whose local zone is UTC, where it
  agrees with the naive UTC datetimes of \<open>utcnow\<close>.
\<close>

definition fromtimestamp :: "int \<Rightarrow> datetime" where
  "fromtimestamp ts = ts"

text \<open>\<open>if token.startswith("Bearer "): token = token[7:]\<close>\<close>

definition strip_bearer :: "string \<Rightarrow> string" where
  "strip_bearer token = (if take 7 token = ''Bearer '' then drop 7 token else token)"

text \<open>
  \<open>verify_token\<close> takes the header value (\<open>None\<close> when the header is absent) and
  the table, and returns the raised \<open>HTTPException\<close> or the payload, with the table
  as the call leaves it.
\<close>

definition verify_token ::
  "settings \<Rightarrow> datetime \<Rightarrow> string option \<Rightarrow> licenses \<Rightarrow> (http_exception + payload) \<times> licenses" where
  "verify_token cfg utcnow token db =
     (case token of
        None \<Rightarrow> (Inl (HTTPException HTTP_401_UNAUTHORIZED ''Missing authentication token''), db)
      | Some tok \<Rightarrow>
          if tok = [] then
            (Inl (HTTPException HTTP_401_UNAUTHORIZED ''Missing authentication token''), db)
          else
            (case jwt_decode cfg (strip_bearer tok) (JWT_SECRET cfg) [JWT_ALGORITHM cfg] utcnow of
               Inl JWTError \<Rightarrow>
                 (Inl (HTTPException HTTP_401_UNAUTHORIZED ''Invalid authentication token''), db)
             | Inr pl \<Rightarrow>
                 if fromtimestamp (exp_claim pl) < utcnow then
                   (Inl (HTTPException HTTP_401_UNAUTHORIZED ''Token has expired''), db)
                 else
                   (case query_first (\<lambda>l. user_id l = sub pl) db of
                      None \<Rightarrow>
                        (Inl (HTTPException HTTP_401_UNAUTHORIZED
                                ''Invalid license. Please subscribe.''), db)
                    | Some lic \<Rightarrow>
                        if \<not> active lic then
                          (Inl (HTTPException HTTP_403_FORBIDDEN
                             ''Your license is inactive. Please renew your subscription.''), db)
                        else if notes_used lic \<ge> notes_limit lic then
                          (Inl (HTTPException HTTP_403_FORBIDDEN
                             ''You have reached your monthly note generation limit. Please upgrade your plan.''), db)
                        else
                          (Inr pl, commit (lic\<lparr>notes_used := notes_used lic + 1\<rparr>) db))))"

section \<open>The rate limiter\<close>

text \<open>
  \<open>RateLimiter\<close>: \<open>requests\<close> is a \<open>defaultdict(list)\<close> of \<open>time.time()\<close>
  readings, which are real numbers of seconds here.
\<close>

record 'k rate_limiter =
  limit :: int
  window :: int
  requests :: "'k \<rightharpoonup> real list"

definition RateLimiter :: "int \<Rightarrow> int \<Rightarrow> 'k rate_limiter" where
  "RateLimiter lmt win = \<lparr>limit = lmt, window = win, requests = Map.empty\<rparr>"

text \<open>Reading a \<open>defaultdict(list)\<close>: a missing key reads as the empty list.\<close>

definition requests_of :: "'k rate_limiter \<Rightarrow> 'k \<Rightarrow> real list" where
  "requests_of rl identifier = (case requests rl identifier of None \<Rightarrow> [] | Some ts \<Rightarrow> ts)"

definition allow_request :: "real \<Rightarrow> 'k \<Rightarrow> 'k rate_limiter \<Rightarrow> bool \<times> 'k rate_limiter" where
  "allow_request current_time identifier rl =
     (let kept = filter (\<lambda>req_time. current_time - req_time < real_of_int (window rl))
                   (requests_of rl identifier)
      in if int (length kept) < limit rl
         then (True, rl\<lparr>requests := (requests rl)(identifier \<mapsto> kept @ [current_time])\<rparr>)
         else (False, rl\<lparr>requests := (requests rl)(identifier \<mapsto> kept)\<rparr>))"

section \<open>License lifecycle\<close>

text \<open>
  \<open>create_license\<close>. Inserting a row whose \<open>email\<close> another row holds violates
  the column's unique constraint, and the commit raises.
\<close>

datatype db_error = IntegrityError

definition create_license ::
  "datetime \<Rightarrow> string \<Rightarrow> string \<Rightarrow> string \<Rightarrow> int \<Rightarrow> string \<Rightarrow> string \<Rightarrow> licenses
     \<Rightarrow> (db_error + license) \<times> licenses" where
  "create_license utcnow uid em pt nlimit cust subscr db =
     (case query_first (\<lambda>l. user_id l = uid) db of
        Some existing_license \<Rightarrow>
          (let l = existing_license\<lparr>plan_type := pt, active := True, notes_limit := nlimit,
                     notes_used := 0, expires_at := utcnow + timedelta_days 30,
                     stripe_customer_id := cust, stripe_subscription_id := subscr\<rparr>
           in (Inr l, commit l db))
      | None \<Rightarrow>
          (let new_license = \<lparr>id_pk = next_id db, user_id = uid, email = em, plan_type = pt,
                     active = True, notes_limit = nlimit, notes_used = 0, created_at = utcnow,
                     expires_at = utcnow + timedelta_days 30,
                     stripe_customer_id = cust, stripe_subscription_id = subscr\<rparr>
           in if em \<in> set (map email db) then (Inl IntegrityError, db)
              else (Inr new_license, db @ [new_license])))"

definition update_license_status :: "string \<Rightarrow> bool \<Rightarrow> licenses \<Rightarrow> license option \<times> licenses" where
  "update_license_status subscr act db =
     (case query_first (\<lambda>l. stripe_subscription_id l = subscr) db of
        None \<Rightarrow> (None, db)
      | Some lic \<Rightarrow> (Some (lic\<lparr>active := act\<rparr>), commit (lic\<lparr>active := act\<rparr>) db))"

text \<open>
  \<open>reset_monthly_usage\<close>: the query's \<open>.all()\<close> is the list of matching rows,
  the loop assigns to each, the commit writes them back; the function returns
  the length of that list.
\<close>

definition reset_monthly_usage :: "datetime \<Rightarrow> licenses \<Rightarrow> nat \<times> licenses" where
  "reset_monthly_usage now db =
     (let expired_licenses = filter (\<lambda>l. active l = True \<and> expires_at l < now) db
      in (length expired_licenses,
          foldl (\<lambda>d l. commit (l\<lparr>notes_used := 0, expires_at := now + timedelta_days 30\<rparr>) d)
            db expired_licenses))"

section \<open>The endpoints of \<open>main.py\<close>\<close>

text \<open>
  The application's state is the licenses table and the module-level limiter
  \<open>rate_limiter = RateLimiter(limit=10, window=60)\<close>, keyed by
  \<open>token_data["sub"] or client_ip\<close> (a string, or \<open>None\<close>).
  \<open>main.py\<close> uses the names \<open>SessionLocal\<close>, \<open>License\<close> and \<open>Path\<close>
  without importing them; they are read as \<open>auth.SessionLocal\<close>, \<open>auth.License\<close>
  and \<open>pathlib.Path\<close>.
\<close>

record app =
  table :: licenses
  rate_limiter :: "string option rate_limiter"


text \<open>\<open>token_data["sub"] or client_ip\<close>\<close>

definition identifier_of :: "payload \<Rightarrow> string option \<Rightarrow> string option" where
  "identifier_of token_data client_ip = (if sub token_data \<noteq> [] then Some (sub token_data) else client_ip)"

text \<open>
  \<open>generate_note_from_text\<close>. The language-model call is the parameter
  \<open>generate_soap_note\<close>, \<open>Inl\<close> the message of the exception it raises.
  \<open>utcnow\<close> and \<open>time_now\<close> are the clock readings of the gate and the limiter.
\<close>

definition generate_note_from_text ::
  "settings \<Rightarrow> (string \<Rightarrow> string + string) \<Rightarrow> datetime \<Rightarrow> real
     \<Rightarrow> string \<Rightarrow> string option \<Rightarrow> string option \<Rightarrow> app \<Rightarrow> (http_exception + string) \<times> app" where
  "generate_note_from_text cfg generate_soap_note utcnow time_now text authorization client_ip st =
     (case verify_token cfg utcnow authorization (table st) of
        (Inl e, db) \<Rightarrow> (Inl e, st\<lparr>table := db\<rparr>)
      | (Inr token_data, db) \<Rightarrow>
          (case allow_request time_now (identifier_of token_data client_ip) (rate_limiter st) of
             (False, rl) \<Rightarrow>
               (Inl (HTTPException HTTP_429_TOO_MANY_REQUESTS
                       ''Rate limit exceeded. Please try again later.''),
                \<lparr>table = db, rate_limiter = rl\<rparr>)
           | (True, rl) \<Rightarrow>
               (case generate_soap_note text of
                  Inl msg \<Rightarrow>
                    (Inl (HTTPException HTTP_500_INTERNAL_SERVER_ERROR
                            ''Failed to generate note. Please try again later.''),
                     \<lparr>table = db, rate_limiter = rl\<rparr>)
                | Inr soap_note \<Rightarrow> (Inr soap_note, \<lparr>table = db, rate_limiter = rl\<rparr>))))"

definition supported_content_types :: "string list" where
  "supported_content_types =
     [''audio/wav'', ''audio/x-wav'', ''audio/mp3'', ''audio/mpeg'', ''audio/ogg'',
      ''application/ogg'', ''audio/flac'', ''audio/x-m4a'', ''audio/mp4'']"

text \<open>
  Lines 187 to 196 of \<open>main.py\<close>, the audio endpoint's usage update after the
  note was generated.
\<close>

definition audio_usage_update :: "payload \<Rightarrow> licenses \<Rightarrow> licenses" where
  "audio_usage_update token_data db =
     (case query_first (\<lambda>l. user_id l = sub token_data) db of
        None \<Rightarrow> db
      | Some lic \<Rightarrow> commit (lic\<lparr>notes_used := notes_used lic + 1\<rparr>) db)"

text \<open>
  \<open>generate_note_from_audio\<close>. \<open>transcription\<close> is the outcome of reading and
  transcribing the upload (lines 155 to 182), \<open>Inl\<close> the message of an exception.
\<close>

definition generate_note_from_audio ::
  "settings \<Rightarrow> (string \<Rightarrow> string + string) \<Rightarrow> datetime \<Rightarrow> real
     \<Rightarrow> string \<Rightarrow> string + string \<Rightarrow> string option \<Rightarrow> string option \<Rightarrow> app
     \<Rightarrow> (http_exception + string) \<times> app" where
  "generate_note_from_audio cfg generate_soap_note utcnow time_now content_type transcription
       authorization client_ip st =
     (case verify_token cfg utcnow authorization (table st) of
        (Inl e, db) \<Rightarrow> (Inl e, st\<lparr>table := db\<rparr>)
      | (Inr token_data, db) \<Rightarrow>
          (case allow_request time_now (identifier_of token_data client_ip) (rate_limiter st) of
             (False, rl) \<Rightarrow>
               (Inl (HTTPException HTTP_429_TOO_MANY_REQUESTS
                       ''Rate limit exceeded. Please try again later.''),
                \<lparr>table = db, rate_limiter = rl\<rparr>)
           | (True, rl) \<Rightarrow>
               if content_type \<notin> set supported_content_types then
                 (Inl (HTTPException HTTP_400_BAD_REQUEST
                         ''Invalid file type. Please upload a supported audio file (WAV, MP3, OGG, FLAC, M4A).''),
                  \<lparr>table = db, rate_limiter = rl\<rparr>)
               else
                 (case transcription of
                    Inl msg \<Rightarrow>
                      (Inl (HTTPException HTTP_500_INTERNAL_SERVER_ERROR
                              (''Failed to process audio and generate note: '' @ msg)),
                       \<lparr>table = db, rate_limiter = rl\<rparr>)
                  | Inr transcript \<Rightarrow>
                      (case generate_soap_note transcript of
                         Inl msg \<Rightarrow>
                           (Inl (HTTPException HTTP_500_INTERNAL_SERVER_ERROR
                                   (''Failed to process audio and generate note: '' @ msg)),
                            \<lparr>table = db, rate_limiter = rl\<rparr>)
                       | Inr soap_note \<Rightarrow>
                           (Inr soap_note,
                            \<lparr>table = audio_usage_update token_data db, rate_limiter = rl\<rparr>)))))"

section \<open>A concrete instance for the examples\<close>

text \<open>
  A stand-in for the \<open>jwt\<close> package that knows one token, the one issued to user
  \<open>u1\<close> at time 0 with the default lifetime of 60 minutes. Like a decoder called
  with expiry verification switched off, it never looks at the clock.
\<close>

definition u1_claims :: payload where
  "u1_claims = \<lparr>sub = ''u1'', email_claim = ''u1@clinic.example'', plan = ''pro'', exp_claim = 3600\<rparr>"

definition demo_settings :: settings where
  "demo_settings =
     \<lparr>JWT_SECRET = ''k'', JWT_ALGORITHM = ''HS256'', JWT_EXPIRATION_MINUTES = 60,
      jwt_encode = (\<lambda>pl key alg. if pl = u1_claims \<and> key = ''k'' then ''tok.u1'' else ''tok.other''),
      jwt_decode = (\<lambda>tok key algs now.
         if tok = ''tok.u1'' \<and> key = ''k'' then Inr u1_claims else Inl JWTError)\<rparr>"

definition u1_license :: license where
  "u1_license =
     \<lparr>id_pk = 1, user_id = ''u1'', email = ''u1@clinic.example'', plan_type = ''pro'',
      active = True, notes_limit = 5, notes_used = 0, created_at = 0, expires_at = 2592000,
      stripe_customer_id = ''cus_1'', stripe_subscription_id = ''sub_1''\<rparr>"

definition u2_license :: license where
  "u2_license =
     \<lparr>id_pk = 2, user_id = ''u2'', email = ''u2@clinic.example'', plan_type = ''starter'',
      active = True, notes_limit = 3, notes_used = 3, created_at = 0, expires_at = 100,
      stripe_customer_id = ''cus_2'', stripe_subscription_id = ''sub_2''\<rparr>"

text \<open>
  The application after user \<open>u1\<close>, on a plan of 100 notes, has made ten requests
  in the ten seconds before time 100.
\<close>

definition busy_app :: app where
  "busy_app =
     \<lparr>table = [u1_license\<lparr>notes_limit := 100, notes_used := 10\<rparr>, u2_license],
      rate_limiter = \<lparr>limit = 10, window = 60,
        requests = [Some ''u1'' \<mapsto> [90, 91, 92, 93, 94, 95, 96, 97, 98, 99]]\<rparr>\<rparr>"

section \<open>Vocabulary of the specification\<close>

text \<open>
  The table with one more note counted for user \<open>uid\<close> and everything else as it
  was.
\<close>

definition charged :: "string \<Rightarrow> licenses \<Rightarrow> licenses" where
  "charged uid db = map (\<lambda>r. if user_id r = uid then r\<lparr>notes_used := notes_used r + 1\<rparr> else r) db"


text \<open>The fields an upsert overwrites.\<close>

definition upsert_fields ::
  "datetime \<Rightarrow> string \<Rightarrow> int \<Rightarrow> string \<Rightarrow> string \<Rightarrow> license \<Rightarrow> license" where
  "upsert_fields utcnow pt nlimit cust subscr l =
     l\<lparr>plan_type := pt, active := True, notes_limit := nlimit, notes_used := 0,
       expires_at := utcnow + timedelta_days 30,
       stripe_customer_id := cust, stripe_subscription_id := subscr\<rparr>"

text \<open>A record whose billing cycle has ended, and the record rolled into a new cycle.\<close>

definition cycle_due :: "datetime \<Rightarrow> license \<Rightarrow> bool" where
  "cycle_due now l \<longleftrightarrow> active l \<and> expires_at l < now"

definition roll_cycle :: "datetime \<Rightarrow> license \<Rightarrow> license" where
  "roll_cycle now l = l\<lparr>notes_used := 0, expires_at := now + timedelta_days 30\<rparr>"


datatype reason =
  Missing_token | Invalid_token | Expired_token | No_license | Inactive_subscription | Quota_exhausted



fun detail_of :: "reason \<Rightarrow> string" where
  "detail_of Missing_token = ''Missing authentication token''"
| "detail_of Invalid_token = ''Invalid authentication token''"
| "detail_of Expired_token = ''Token has expired''"
| "detail_of No_license = ''Invalid license. Please subscribe.''"
| "detail_of Inactive_subscription = ''Your license is inactive. Please renew your subscription.''"
| "detail_of Quota_exhausted =
     ''You have reached your monthly note generation limit. Please upgrade your plan.''"


text \<open>
  Every record's counter is within its limit, and a run of \<open>n\<close> gate calls one
  after the other with the same token and clock reading.
\<close>

definition quota_ok :: "licenses \<Rightarrow> bool" where
  "quota_ok db \<longleftrightarrow> (\<forall>l \<in> set db. 0 \<le> notes_used l \<and> notes_used l \<le> notes_limit l)"

fun gate_calls ::
  "nat \<Rightarrow> settings \<Rightarrow> datetime \<Rightarrow> string option \<Rightarrow> licenses
     \<Rightarrow> (http_exception + payload) list \<times> licenses" where
  "gate_calls 0 cfg now token db = ([], db)"
| "gate_calls (Suc n) cfg now token db =
     (case verify_token cfg now token db of
        (r, db') \<Rightarrow> (case gate_calls n cfg now token db' of (rs, db'') \<Rightarrow> (r # rs, db'')))"

text \<open>A sequence of limiter calls, each with its clock reading and identifier.\<close>

fun allow_requests :: "(real \<times> 'k) list \<Rightarrow> 'k rate_limiter \<Rightarrow> bool list \<times> 'k rate_limiter" where
  "allow_requests [] rl = ([], rl)"
| "allow_requests ((t, k) # calls) rl =
     (case allow_request t k rl of
        (b, rl') \<Rightarrow> (case allow_requests calls rl' of (bs, rl'') \<Rightarrow> (b # bs, rl'')))"

section \<open>Facts about the table\<close>

lemma find_SomeD:
  "find P db = Some l \<Longrightarrow> l \<in> set db \<and> P l"
  by (induction db) (auto split: if_splits)

lemma commit_by_user:
  assumes "distinct (map id_pk db)" "distinct (map user_id db)"
    and "query_first (\<lambda>l. user_id l = u) db = Some lic"
    and "id_pk (f lic) = id_pk lic"
  shows "commit (f lic) db = map (\<lambda>r. if user_id r = u then f r else r) db"
proof -
  from assms(3) have mem: "lic \<in> set db" and u: "user_id lic = u"
    using find_SomeD [of "\<lambda>l. user_id l = u" db lic] by (simp_all add: query_first_def)
  have "(if id_pk r = id_pk (f lic) then f lic else r) = (if user_id r = u then f r else r)"
    if "r \<in> set db" for r
  proof -
    have "id_pk r = id_pk lic \<longleftrightarrow> r = lic"
      using assms(1) that mem by (auto simp: distinct_map inj_on_def)
    moreover have "user_id r = u \<longleftrightarrow> r = lic"
      using assms(2) that mem u by (auto simp: distinct_map inj_on_def)
    ultimately show ?thesis using assms(4) by auto
  qed
  then show ?thesis unfolding commit_def by (intro map_cong) simp_all
qed






lemma upsert_fields_keys [simp]:
  "id_pk (upsert_fields now pt nl cust subscr l) = id_pk l"
  "user_id (upsert_fields now pt nl cust subscr l) = user_id l"
  "email (upsert_fields now pt nl cust subscr l) = email l"
  by (simp_all add: upsert_fields_def)







lemma commit_loop:
  assumes "distinct (map id_pk db)" "set xs \<subseteq> set db" "\<And>l. id_pk (f l) = id_pk l"
  shows "foldl (\<lambda>d l. commit (f l) d) db xs = map (\<lambda>r. if r \<in> set xs then f r else r) db"
  using assms(2)
proof (induction xs rule: rev_induct)
  case Nil
  then show ?case by simp
next
  case (snoc x xs)
  have x: "x \<in> set db" using snoc.prems by simp
  have step: "(if id_pk (if r \<in> set xs then f r else r) = id_pk (f x) then f x
               else if r \<in> set xs then f r else r) =
              (if r \<in> set (xs @ [x]) then f r else r)" if "r \<in> set db" for r
  proof -
    have "id_pk r = id_pk x \<longleftrightarrow> r = x"
      using assms(1) that x by (auto simp: distinct_map inj_on_def)
    then show ?thesis using assms(3) by auto
  qed
  have "foldl (\<lambda>d l. commit (f l) d) db (xs @ [x]) =
          commit (f x) (map (\<lambda>r. if r \<in> set xs then f r else r) db)"
    using snoc by simp
  also have "\<dots> = map (\<lambda>r. if r \<in> set (xs @ [x]) then f r else r) db"
    unfolding commit_def map_map comp_def using step by (intro map_cong) simp_all
  finally show ?case .
qed

lemma reset_monthly_usage_map:
  assumes "distinct (map id_pk db)"
  shows "reset_monthly_usage now db =
           (length (filter (cycle_due now) db),
            map (\<lambda>l. if cycle_due now l then roll_cycle now l else l) db)"
proof -
  have due: "(\<lambda>l. active l = True \<and> expires_at l < now) = cycle_due now"
    by (simp add: cycle_due_def fun_eq_iff)
  have roll: "(\<lambda>d l. commit (l\<lparr>notes_used := 0, expires_at := now + timedelta_days 30\<rparr>) d) =
      (\<lambda>d l. commit (roll_cycle now l) d)"
    by (simp add: roll_cycle_def fun_eq_iff)
  have "foldl (\<lambda>d l. commit (roll_cycle now l) d) db (filter (cycle_due now) db) =
          map (\<lambda>r. if r \<in> set (filter (cycle_due now) db) then roll_cycle now r else r) db"
    using assms by (intro commit_loop) (simp_all add: roll_cycle_def)
  also have "\<dots> = map (\<lambda>l. if cycle_due now l then roll_cycle now l else l) db"
    by (intro map_cong) simp_all
  finally show ?thesis
    unfolding reset_monthly_usage_def Let_def due roll by simp
qed

lemma roll_cycle_not_due: "\<not> cycle_due now (roll_cycle now l)"
  by (simp add: cycle_due_def roll_cycle_def timedelta_days_def)

lemma verify_token_Inr:
  assumes "fst (verify_token cfg now token db) = Inr pl"
  shows "\<exists>tok lic. token = Some tok \<and> tok \<noteq> [] \<and>
           jwt_decode cfg (strip_bearer tok) (JWT_SECRET cfg) [JWT_ALGORITHM cfg] now = Inr pl \<and>
           \<not> fromtimestamp (exp_claim pl) < now \<and>
           query_first (\<lambda>l. user_id l = sub pl) db = Some lic \<and> active lic \<and>
           notes_used lic < notes_limit lic \<and>
           snd (verify_token cfg now token db) = commit (lic\<lparr>notes_used := notes_used lic + 1\<rparr>) db"
  using assms
  by (auto simp: verify_token_def split: option.splits sum.splits if_splits jwt_error.splits)

lemma verify_token_charges:
  assumes "table_ok db" "fst (verify_token cfg now token db) = Inr pl"
  shows "snd (verify_token cfg now token db) = charged (sub pl) db"
proof -
  from verify_token_Inr [OF assms(2)] obtain lic where
    q: "query_first (\<lambda>l. user_id l = sub pl) db = Some lic" and
    s: "snd (verify_token cfg now token db) = commit (lic\<lparr>notes_used := notes_used lic + 1\<rparr>) db"
    by blast
  have "commit (lic\<lparr>notes_used := notes_used lic + 1\<rparr>) db = charged (sub pl) db"
    unfolding charged_def
    using assms(1) q
      commit_by_user [of db "sub pl" lic "\<lambda>r. r\<lparr>notes_used := notes_used r + 1\<rparr>"]
    by (simp add: table_ok_def)
  with s show ?thesis by simp
qed

lemma verify_token_Inl_status:
  assumes "fst (verify_token cfg now token db) = Inl e"
  shows "status_code e = 401 \<or> status_code e = 403"
  using assms
  by (auto simp: verify_token_def HTTP_401_UNAUTHORIZED_def HTTP_403_FORBIDDEN_def
      split: option.splits sum.splits if_splits jwt_error.splits)

lemma text_endpoint_429:
  assumes "fst (generate_note_from_text cfg gen now t body auth ip st) =
             Inl (HTTPException HTTP_429_TOO_MANY_REQUESTS d)"
  shows "\<exists>pl. fst (verify_token cfg now auth (table st)) = Inr pl \<and>
           \<not> fst (allow_request t (identifier_of pl ip) (rate_limiter st)) \<and>
           table (snd (generate_note_from_text cfg gen now t body auth ip st)) =
             snd (verify_token cfg now auth (table st))"
proof (cases "fst (verify_token cfg now auth (table st))")
  case (Inl e)
  then have "fst (generate_note_from_text cfg gen now t body auth ip st) = Inl e"
    by (cases "verify_token cfg now auth (table st)") (simp add: generate_note_from_text_def)
  with assms verify_token_Inl_status [OF Inl] show ?thesis
    by (simp add: HTTP_429_TOO_MANY_REQUESTS_def)
next
  case (Inr pl)
  then show ?thesis using assms
    by (auto simp: generate_note_from_text_def HTTP_429_TOO_MANY_REQUESTS_def
        HTTP_500_INTERNAL_SERVER_ERROR_def split: prod.splits sum.splits bool.splits if_splits)
qed

lemma audio_endpoint_429:
  assumes "fst (generate_note_from_audio cfg gen now t ct tr auth ip st) =
             Inl (HTTPException HTTP_429_TOO_MANY_REQUESTS d)"
  shows "\<exists>pl. fst (verify_token cfg now auth (table st)) = Inr pl \<and>
           \<not> fst (allow_request t (identifier_of pl ip) (rate_limiter st)) \<and>
           table (snd (generate_note_from_audio cfg gen now t ct tr auth ip st)) =
             snd (verify_token cfg now auth (table st))"
proof (cases "fst (verify_token cfg now auth (table st))")
  case (Inl e)
  then have "fst (generate_note_from_audio cfg gen now t ct tr auth ip st) = Inl e"
    by (cases "verify_token cfg now auth (table st)") (simp add: generate_note_from_audio_def)
  with assms verify_token_Inl_status [OF Inl] show ?thesis
    by (simp add: HTTP_429_TOO_MANY_REQUESTS_def)
next
  case (Inr pl)
  then show ?thesis using assms
    by (auto simp: generate_note_from_audio_def HTTP_429_TOO_MANY_REQUESTS_def
        HTTP_500_INTERNAL_SERVER_ERROR_def HTTP_400_BAD_REQUEST_def
        split: prod.splits sum.splits bool.splits if_splits)
qed

lemma endpoints_gate_rejects:
  assumes "fst (verify_token cfg now auth (table st)) = Inl e"
  shows "generate_note_from_text cfg gen now t body auth ip st = (Inl e, st)"
    and "generate_note_from_audio cfg gen now t ct tr auth ip st = (Inl e, st)"
proof -
  have "snd (verify_token cfg now auth (table st)) = table st"
    using assms
    by (auto simp: verify_token_def split: option.splits sum.splits if_splits jwt_error.splits)
  with assms have "verify_token cfg now auth (table st) = (Inl e, table st)"
    by (simp add: prod_eq_iff)
  then show "generate_note_from_text cfg gen now t body auth ip st = (Inl e, st)"
    and "generate_note_from_audio cfg gen now t ct tr auth ip st = (Inl e, st)"
    by (simp_all add: generate_note_from_text_def generate_note_from_audio_def)
qed

lemma burst_then_wait:
  assumes "t0 \<le> t1" "t1 \<le> t2" "t2 \<le> t3" "t3 < t0 + 1" "t0 + 61 \<le> t4"
  shows "fst (allow_requests [(t0, x), (t1, x), (t2, x), (t3, x), (t4, x)] (RateLimiter 3 60)) =
     [True, True, True, False, True]"
  using assms
  by (simp add: allow_request_def RateLimiter_def requests_of_def Let_def)

section \<open>The usage counter under the sequential operations\<close>

text \<open>
  The gate, the upsert (with a limit that is not negative), the status update and
  the reconciler keep every counter between 0 and its limit; the audio endpoint's
  update after the generation does not.
\<close>

lemma commit_keeps:
  "P l \<Longrightarrow> \<forall>r \<in> set db. P r \<Longrightarrow> \<forall>r \<in> set (commit l db). P r"
  by (auto simp: commit_def)

lemma verify_token_quota_ok:
  assumes "quota_ok db"
  shows "quota_ok (snd (verify_token cfg now token db))"
proof (cases "fst (verify_token cfg now token db)")
  case (Inl e)
  then have "snd (verify_token cfg now token db) = db"
    by (auto simp: verify_token_def split: option.splits sum.splits if_splits jwt_error.splits)
  with assms show ?thesis by simp
next
  case (Inr pl)
  from verify_token_Inr [OF Inr] obtain lic where
    q: "query_first (\<lambda>l. user_id l = sub pl) db = Some lic" and
    lt: "notes_used lic < notes_limit lic" and
    s: "snd (verify_token cfg now token db) = commit (lic\<lparr>notes_used := notes_used lic + 1\<rparr>) db"
    by blast
  from q have "lic \<in> set db"
    using find_SomeD [of "\<lambda>l. user_id l = sub pl" db lic] by (simp add: query_first_def)
  with assms have "0 \<le> notes_used lic" by (simp add: quota_ok_def)
  with lt assms show ?thesis
    unfolding s quota_ok_def by (intro commit_keeps) simp_all
qed

lemma create_license_quota_ok:
  assumes "quota_ok db" "0 \<le> nl"
  shows "quota_ok (snd (create_license now uid em pt nl cust subscr db))"
  using assms unfolding quota_ok_def create_license_def Let_def
  by (auto simp: commit_def split: option.splits)

lemma update_license_status_quota_ok:
  assumes "quota_ok db"
  shows "quota_ok (snd (update_license_status subscr act db))"
proof (cases "query_first (\<lambda>l. stripe_subscription_id l = subscr) db")
  case None
  with assms show ?thesis by (simp add: update_license_status_def)
next
  case (Some lic)
  then have "lic \<in> set db"
    using find_SomeD [of "\<lambda>l. stripe_subscription_id l = subscr" db lic]
    by (simp add: query_first_def)
  with assms Some show ?thesis
    unfolding quota_ok_def update_license_status_def
    by (auto simp: commit_def)
qed

lemma commit_loop_keeps:
  assumes "\<forall>r \<in> set db. P r" "\<forall>l \<in> set xs. P (f l)"
  shows "\<forall>r \<in> set (foldl (\<lambda>d l. commit (f l) d) db xs). P r"
  using assms
proof (induction xs arbitrary: db)
  case Nil
  then show ?case by simp
next
  case (Cons x xs)
  have "\<forall>r \<in> set (commit (f x) db). P r"
    using Cons.prems by (intro commit_keeps) simp_all
  then show ?case using Cons.IH [of "commit (f x) db"] Cons.prems(2) by simp
qed

lemma reset_monthly_usage_quota_ok:
  assumes "quota_ok db"
  shows "quota_ok (snd (reset_monthly_usage now db))"
proof -
  have "\<forall>l \<in> set (filter (\<lambda>l. active l = True \<and> expires_at l < now) db).
          0 \<le> notes_used (l\<lparr>notes_used := 0, expires_at := now + timedelta_days 30\<rparr>) \<and>
          notes_used (l\<lparr>notes_used := 0, expires_at := now + timedelta_days 30\<rparr>)
            \<le> notes_limit (l\<lparr>notes_used := 0, expires_at := now + timedelta_days 30\<rparr>)"
    using assms by (auto simp: quota_ok_def)
  with assms show ?thesis
    unfolding quota_ok_def reset_monthly_usage_def Let_def snd_conv
    by (intro commit_loop_keeps
        [where P = "\<lambda>l. 0 \<le> notes_used l \<and> notes_used l \<le> notes_limit l"
           and f = "\<lambda>l. l\<lparr>notes_used := 0, expires_at := now + timedelta_days 30\<rparr>"])
qed

lemma audio_usage_update_breaks_quota:
  "quota_ok [u1_license\<lparr>notes_used := 5\<rparr>]
   \<and> \<not> quota_ok (audio_usage_update u1_claims [u1_license\<lparr>notes_used := 5\<rparr>])"
  by (simp add: quota_ok_def audio_usage_update_def query_first_def commit_def
      u1_license_def u1_claims_def)

text \<open>
  Gate calls made one after the other for a user with \<open>k\<close> notes left: the first
  \<open>k\<close> succeed, all later ones fail with the quota reason.
\<close>

lemma table_ok_charged: "table_ok db \<Longrightarrow> table_ok (charged u db)"
proof -
  let ?F = "\<lambda>r. if user_id r = u then r\<lparr>notes_used := notes_used r + 1\<rparr> else r"
  have 1: "map id_pk (map ?F db) = map id_pk db" by (induction db) auto
  have 2: "map user_id (map ?F db) = map user_id db" by (induction db) auto
  have 3: "map email (map ?F db) = map email db" by (induction db) auto
  show "table_ok db \<Longrightarrow> table_ok (charged u db)"
    unfolding table_ok_def charged_def 1 2 3 .
qed

lemma query_first_charged:
  "query_first (\<lambda>l. user_id l = u) db = Some lic \<Longrightarrow>
   query_first (\<lambda>l. user_id l = u) (charged u db) = Some (lic\<lparr>notes_used := notes_used lic + 1\<rparr>)"
  unfolding query_first_def charged_def
  by (induction db) (auto split: if_splits)

lemma fst_gate_calls_Suc:
  "fst (gate_calls (Suc n) cfg now token db) =
     fst (verify_token cfg now token db) #
     fst (gate_calls n cfg now token (snd (verify_token cfg now token db)))"
  by (simp split: prod.splits)

lemma gate_calls_sequential:
  assumes "table_ok db" "tok \<noteq> []"
    and "jwt_decode cfg (strip_bearer tok) (JWT_SECRET cfg) [JWT_ALGORITHM cfg] now = Inr pl"
    and "\<not> fromtimestamp (exp_claim pl) < now"
    and "query_first (\<lambda>l. user_id l = sub pl) db = Some lic"
    and "active lic" and "notes_used lic \<le> notes_limit lic"
  shows "fst (gate_calls n cfg now (Some tok) db) =
           replicate (min n (nat (notes_limit lic - notes_used lic))) (Inr pl) @
           replicate (n - nat (notes_limit lic - notes_used lic))
             (Inl (HTTPException HTTP_403_FORBIDDEN (detail_of Quota_exhausted)))"
  using assms(1,5,6,7)
proof (induction n arbitrary: db lic)
  case 0
  then show ?case by simp
next
  case (Suc n)
  show ?case
  proof (cases "notes_used lic < notes_limit lic")
    case True
    have v: "verify_token cfg now (Some tok) db = (Inr pl, charged (sub pl) db)"
    proof -
      have f: "fst (verify_token cfg now (Some tok) db) = Inr pl"
        using assms(2-4) Suc.prems True by (simp add: verify_token_def)
      from verify_token_charges [OF Suc.prems(1) f] f show ?thesis
        by (simp add: prod_eq_iff)
    qed
    let ?lic' = "lic\<lparr>notes_used := notes_used lic + 1\<rparr>"
    have ih: "fst (gate_calls n cfg now (Some tok) (charged (sub pl) db)) =
           replicate (min n (nat (notes_limit ?lic' - notes_used ?lic'))) (Inr pl) @
           replicate (n - nat (notes_limit ?lic' - notes_used ?lic'))
             (Inl (HTTPException HTTP_403_FORBIDDEN (detail_of Quota_exhausted)))"
      using Suc.prems True
      by (intro Suc.IH table_ok_charged query_first_charged) simp_all
    obtain k where k: "nat (notes_limit lic - notes_used lic) = Suc k"
      using True by (cases "nat (notes_limit lic - notes_used lic)") auto
    then have k': "nat (notes_limit ?lic' - notes_used ?lic') = k"
      by simp
    show ?thesis
      using v ih unfolding k k' fst_gate_calls_Suc by simp
  next
    case False
    then have eq: "notes_used lic = notes_limit lic" using Suc.prems(4) by simp
    have v: "verify_token cfg now (Some tok) db =
        (Inl (HTTPException HTTP_403_FORBIDDEN (detail_of Quota_exhausted)), db)"
      using assms(2-4) Suc.prems eq by (simp add: verify_token_def)
    have ih: "fst (gate_calls n cfg now (Some tok) db) =
           replicate (min n (nat (notes_limit lic - notes_used lic))) (Inr pl) @
           replicate (n - nat (notes_limit lic - notes_used lic))
             (Inl (HTTPException HTTP_403_FORBIDDEN (detail_of Quota_exhausted)))"
      using Suc.prems by (intro Suc.IH)
    show ?thesis using v ih eq unfolding fst_gate_calls_Suc by simp
  qed
qed

section \<open>The claims\<close>

subsection \<open>C1: the success path of the gate\<close>

text \<open>
  C1. A request with a non-empty token that the library decodes, that the expiry
  check passes, and whose subject holds an active license with
  \<open>notes_used < notes_limit\<close>: the gate returns the decoded claims (subject,
  email, plan) and the table afterwards is the table before with that user's
  \<open>notes_used\<close> one higher; no other field and no other record differs.
\<close>

theorem verify_token_success:
  assumes "table_ok db"
    and "tok \<noteq> []"
    and "jwt_decode cfg (strip_bearer tok) (JWT_SECRET cfg) [JWT_ALGORITHM cfg] now = Inr pl"
    and "\<not> fromtimestamp (exp_claim pl) < now"
    and "query_first (\<lambda>l. user_id l = sub pl) db = Some lic"
    and "active lic"
    and "notes_used lic < notes_limit lic"
  shows "verify_token cfg now (Some tok) db =
           (Inr pl, map (\<lambda>r. if user_id r = sub pl then r\<lparr>notes_used := notes_used r + 1\<rparr> else r) db)"
proof -
  have "verify_token cfg now (Some tok) db =
          (Inr pl, commit (lic\<lparr>notes_used := notes_used lic + 1\<rparr>) db)"
    using assms(2-7) by (simp add: verify_token_def)
  moreover have "commit (lic\<lparr>notes_used := notes_used lic + 1\<rparr>) db =
      map (\<lambda>r. if user_id r = sub pl then r\<lparr>notes_used := notes_used r + 1\<rparr> else r) db"
    using assms(1,5) commit_by_user [of db "sub pl" lic "\<lambda>r. r\<lparr>notes_used := notes_used r + 1\<rparr>"]
    by (simp add: table_ok_def)
  ultimately show ?thesis by simp
qed

text \<open>
  The instance: user \<open>u1\<close> with 0 of 5 notes used, next to a second user.
\<close>

theorem verify_token_success_witness:
  "verify_token demo_settings 100 (Some ''Bearer tok.u1'') [u1_license, u2_license] =
     (Inr u1_claims, [u1_license\<lparr>notes_used := 1\<rparr>, u2_license])
   \<and> sub u1_claims = ''u1'' \<and> email_claim u1_claims = ''u1@clinic.example'' \<and> plan u1_claims = ''pro''"
  using verify_token_success [of "[u1_license, u2_license]" "''Bearer tok.u1''" demo_settings 100
      u1_claims u1_license]
  by (simp add: table_ok_def u1_license_def u2_license_def demo_settings_def u1_claims_def
      strip_bearer_def fromtimestamp_def query_first_def)

subsection \<open>C2: failures and their status\<close>



subsection \<open>C3: overlapping gate calls\<close>

text \<open>
  C3 speaks of gate calls that overlap in time. Here a gate call is one step on the
  table, so overlapping calls are not expressed; for calls made one after the other,
  \<open>gate_calls_sequential\<close> above gives the outcome: with \<open>k\<close> notes left, the
  first \<open>k\<close> calls succeed and every later one fails with the quota reason.
\<close>

subsection \<open>C4: rate-limited requests\<close>

text \<open>
  C4, as the code has it. Both note endpoints call the gate before the limiter. A
  request answered with the rate-limit error (429) has therefore passed the gate,
  and the table it leaves is the table before with one more note counted for the
  token's subject. A request the gate rejects is answered with the gate's error and
  leaves the table and the limiter as they were.
\<close>

theorem rate_limited_after_gate:
  assumes "table_ok (table st)"
  shows "(fst (generate_note_from_text cfg gen now t body auth ip st) =
            Inl (HTTPException HTTP_429_TOO_MANY_REQUESTS d) \<longrightarrow>
          (\<exists>pl. fst (verify_token cfg now auth (table st)) = Inr pl \<and>
             table (snd (generate_note_from_text cfg gen now t body auth ip st)) =
               charged (sub pl) (table st)))
       \<and> (fst (generate_note_from_audio cfg gen now t ct tr auth ip st) =
            Inl (HTTPException HTTP_429_TOO_MANY_REQUESTS d) \<longrightarrow>
          (\<exists>pl. fst (verify_token cfg now auth (table st)) = Inr pl \<and>
             table (snd (generate_note_from_audio cfg gen now t ct tr auth ip st)) =
               charged (sub pl) (table st)))
       \<and> (\<forall>e. fst (verify_token cfg now auth (table st)) = Inl e \<longrightarrow>
             generate_note_from_text cfg gen now t body auth ip st = (Inl e, st) \<and>
             generate_note_from_audio cfg gen now t ct tr auth ip st = (Inl e, st))"
proof (intro conjI allI impI)
  assume "fst (generate_note_from_text cfg gen now t body auth ip st) =
            Inl (HTTPException HTTP_429_TOO_MANY_REQUESTS d)"
  from text_endpoint_429 [OF this] obtain pl where
    "fst (verify_token cfg now auth (table st)) = Inr pl"
    "table (snd (generate_note_from_text cfg gen now t body auth ip st)) =
       snd (verify_token cfg now auth (table st))"
    by blast
  with verify_token_charges [OF assms, of cfg now auth pl]
  show "\<exists>pl. fst (verify_token cfg now auth (table st)) = Inr pl \<and>
             table (snd (generate_note_from_text cfg gen now t body auth ip st)) =
               charged (sub pl) (table st)"
    by auto
next
  assume "fst (generate_note_from_audio cfg gen now t ct tr auth ip st) =
            Inl (HTTPException HTTP_429_TOO_MANY_REQUESTS d)"
  from audio_endpoint_429 [OF this] obtain pl where
    "fst (verify_token cfg now auth (table st)) = Inr pl"
    "table (snd (generate_note_from_audio cfg gen now t ct tr auth ip st)) =
       snd (verify_token cfg now auth (table st))"
    by blast
  with verify_token_charges [OF assms, of cfg now auth pl]
  show "\<exists>pl. fst (verify_token cfg now auth (table st)) = Inr pl \<and>
             table (snd (generate_note_from_audio cfg gen now t ct tr auth ip st)) =
               charged (sub pl) (table st)"
    by auto
next
  fix e assume "fst (verify_token cfg now auth (table st)) = Inl e"
  then show "generate_note_from_text cfg gen now t body auth ip st = (Inl e, st)"
    by (rule endpoints_gate_rejects(1))
next
  fix e assume "fst (verify_token cfg now auth (table st)) = Inl e"
  then show "generate_note_from_audio cfg gen now t ct tr auth ip st = (Inl e, st)"
    by (rule endpoints_gate_rejects(2))
qed

theorem rate_limited_after_gate_witness:
  "table_ok (table busy_app)
   \<and> fst (generate_note_from_text demo_settings (\<lambda>note. Inr ''S: ...'') 100 100 ''tooth 14 sensitive''
          (Some ''Bearer tok.u1'') None busy_app) =
       Inl (HTTPException HTTP_429_TOO_MANY_REQUESTS ''Rate limit exceeded. Please try again later.'')
   \<and> table (snd (generate_note_from_text demo_settings (\<lambda>note. Inr ''S: ...'') 100 100
          ''tooth 14 sensitive'' (Some ''Bearer tok.u1'') None busy_app)) =
       charged ''u1'' (table busy_app)
   \<and> fst (generate_note_from_audio demo_settings (\<lambda>note. Inr ''S: ...'') 100 100 ''audio/wav''
          (Inr ''tooth 14 sensitive'') (Some ''Bearer tok.u1'') None busy_app) =
       Inl (HTTPException HTTP_429_TOO_MANY_REQUESTS ''Rate limit exceeded. Please try again later.'')
   \<and> table (snd (generate_note_from_audio demo_settings (\<lambda>note. Inr ''S: ...'') 100 100 ''audio/wav''
          (Inr ''tooth 14 sensitive'') (Some ''Bearer tok.u1'') None busy_app)) =
       charged ''u1'' (table busy_app)"
proof -
  have ok: "table_ok (table busy_app)"
    by (simp add: busy_app_def table_ok_def u1_license_def u2_license_def)
  have v: "fst (verify_token demo_settings 100 (Some ''Bearer tok.u1'') (table busy_app)) = Inr u1_claims"
    by (simp add: verify_token_def busy_app_def demo_settings_def u1_claims_def u1_license_def
        u2_license_def strip_bearer_def fromtimestamp_def query_first_def)
  have t: "fst (generate_note_from_text demo_settings (\<lambda>note. Inr ''S: ...'') 100 100
          ''tooth 14 sensitive'' (Some ''Bearer tok.u1'') None busy_app) =
       Inl (HTTPException HTTP_429_TOO_MANY_REQUESTS ''Rate limit exceeded. Please try again later.'')"
    by (simp add: generate_note_from_text_def verify_token_def busy_app_def demo_settings_def
      u1_claims_def u1_license_def u2_license_def strip_bearer_def fromtimestamp_def
      query_first_def commit_def allow_request_def requests_of_def identifier_of_def Let_def)
  have a: "fst (generate_note_from_audio demo_settings (\<lambda>note. Inr ''S: ...'') 100 100 ''audio/wav''
          (Inr ''tooth 14 sensitive'') (Some ''Bearer tok.u1'') None busy_app) =
       Inl (HTTPException HTTP_429_TOO_MANY_REQUESTS ''Rate limit exceeded. Please try again later.'')"
    by (simp add: generate_note_from_audio_def verify_token_def busy_app_def demo_settings_def
      u1_claims_def u1_license_def u2_license_def strip_bearer_def fromtimestamp_def
      query_first_def commit_def allow_request_def requests_of_def identifier_of_def Let_def)
  note r = rate_limited_after_gate [OF ok, where cfg = demo_settings and now = 100
      and auth = "Some ''Bearer tok.u1''" and gen = "\<lambda>note. Inr ''S: ...''" and t = 100
      and body = "''tooth 14 sensitive''" and ip = None and ct = "''audio/wav''"
      and tr = "Inr ''tooth 14 sensitive''"
      and d = "''Rate limit exceeded. Please try again later.''"]
  show ?thesis using ok t a r v by (simp add: u1_claims_def)
qed

text \<open>
  C4 as stated fails: user \<open>u1\<close> has made ten requests in the last minute, the
  eleventh is answered 429, and \<open>notes_used\<close> went from 10 to 11.
\<close>

theorem rate_limited_consumes_quota:
  "fst (generate_note_from_text demo_settings (\<lambda>note. Inr ''S: ...'') 100 100 ''tooth 14 sensitive''
          (Some ''Bearer tok.u1'') None busy_app) =
     Inl (HTTPException 429 ''Rate limit exceeded. Please try again later.'')
   \<and> map notes_used (table busy_app) = [10, 3]
   \<and> map notes_used (table (snd (generate_note_from_text demo_settings (\<lambda>note. Inr ''S: ...'') 100 100
          ''tooth 14 sensitive'' (Some ''Bearer tok.u1'') None busy_app))) = [11, 3]"
  by (simp add: generate_note_from_text_def verify_token_def busy_app_def demo_settings_def
      u1_claims_def u1_license_def u2_license_def strip_bearer_def fromtimestamp_def
      query_first_def commit_def allow_request_def requests_of_def identifier_of_def
      HTTP_429_TOO_MANY_REQUESTS_def Let_def)

subsection \<open>C5: the usage counter and the limit\<close>


subsection \<open>C6: the license upsert\<close>




subsection \<open>C7: the cycle reconciler\<close>

text \<open>
  C7. \<open>reset_monthly_usage\<close> run at \<open>now\<close> resets \<open>notes_used\<close> to 0 and
  sets \<open>expires_at\<close> to \<open>now\<close> plus 30 days for exactly the records with
  \<open>active\<close> and \<open>expires_at < now\<close>, leaves every other record as it is,
  returns the number of records it reset, and a second run at the same \<open>now\<close>
  resets none and changes nothing.
\<close>

theorem reset_monthly_usage_reconciles:
  assumes "distinct (map id_pk db)"
  shows "snd (reset_monthly_usage now db) =
           map (\<lambda>l. if active l \<and> expires_at l < now
                     then l\<lparr>notes_used := 0, expires_at := now + timedelta_days 30\<rparr> else l) db
         \<and> fst (reset_monthly_usage now db) =
             length (filter (\<lambda>l. active l \<and> expires_at l < now) db)
         \<and> reset_monthly_usage now (snd (reset_monthly_usage now db)) =
             (0, snd (reset_monthly_usage now db))"
proof -
  let ?db' = "map (\<lambda>l. if cycle_due now l then roll_cycle now l else l) db"
  have first: "reset_monthly_usage now db = (length (filter (cycle_due now) db), ?db')"
    using assms by (rule reset_monthly_usage_map)
  have ids: "map id_pk ?db' = map id_pk db"
    by (induction db) (auto simp: roll_cycle_def)
  have none_due: "\<not> cycle_due now l" if "l \<in> set ?db'" for l
    using that roll_cycle_not_due by auto
  have no: "filter (cycle_due now) ?db' = []"
    unfolding filter_empty_conv using none_due by blast
  have same: "map (\<lambda>l. if cycle_due now l then roll_cycle now l else l) ?db' = ?db'"
  proof (rule map_idI)
    fix l assume "l \<in> set ?db'"
    then have "\<not> cycle_due now l" by (rule none_due)
    then show "(if cycle_due now l then roll_cycle now l else l) = l" by simp
  qed
  have "distinct (map id_pk ?db')"
    unfolding ids by (rule assms)
  then have second: "reset_monthly_usage now ?db' = (0, ?db')"
    using reset_monthly_usage_map [of ?db' now] no same by simp
  have "(\<lambda>l. if cycle_due now l then roll_cycle now l else l) =
        (\<lambda>l. if active l \<and> expires_at l < now
              then l\<lparr>notes_used := 0, expires_at := now + timedelta_days 30\<rparr> else l)"
    by (simp add: cycle_due_def roll_cycle_def fun_eq_iff)
  moreover have "cycle_due now = (\<lambda>l. active l \<and> expires_at l < now)"
    by (simp add: cycle_due_def fun_eq_iff)
  ultimately show ?thesis using first second by simp
qed

theorem reset_monthly_usage_reconciles_witness:
  "distinct (map id_pk [u1_license, u2_license])
   \<and> reset_monthly_usage 200 [u1_license, u2_license] =
     (1, [u1_license, u2_license\<lparr>notes_used := 0, expires_at := 2592200\<rparr>])
   \<and> reset_monthly_usage 200 (snd (reset_monthly_usage 200 [u1_license, u2_license])) =
     (0, [u1_license, u2_license\<lparr>notes_used := 0, expires_at := 2592200\<rparr>])"
proof -
  have d: "distinct (map id_pk [u1_license, u2_license])"
    by (simp add: u1_license_def u2_license_def)
  note r = reset_monthly_usage_reconciles [OF d, of 200]
  have s: "snd (reset_monthly_usage 200 [u1_license, u2_license]) =
      [u1_license, u2_license\<lparr>notes_used := 0, expires_at := 2592200\<rparr>]"
    using r by (simp add: u1_license_def u2_license_def timedelta_days_def)
  have f: "fst (reset_monthly_usage 200 [u1_license, u2_license]) = 1"
    using r by (simp add: u1_license_def u2_license_def)
  have t: "reset_monthly_usage 200 (snd (reset_monthly_usage 200 [u1_license, u2_license])) =
      (0, snd (reset_monthly_usage 200 [u1_license, u2_license]))"
    using r by (rule conjunct2 [THEN conjunct2])
  have w1: "reset_monthly_usage 200 [u1_license, u2_license] =
      (1, [u1_license, u2_license\<lparr>notes_used := 0, expires_at := 2592200\<rparr>])"
    using s f by (simp add: prod_eq_iff)
  have w2: "reset_monthly_usage 200 (snd (reset_monthly_usage 200 [u1_license, u2_license])) =
      (0, [u1_license, u2_license\<lparr>notes_used := 0, expires_at := 2592200\<rparr>])"
    using t s by simp
  show ?thesis using d w1 w2 by (intro conjI)
qed

subsection \<open>C8: issuing and verifying a token\<close>




subsection \<open>C9: the sliding window\<close>

text \<open>
  C9. In every state of the limiter, \<open>allow_request\<close> keeps of the identifier's
  timestamps those less than \<open>window\<close> seconds old, answers true exactly when
  fewer than \<open>limit\<close> are kept, stores the kept ones followed by the current time
  when it answers true and the kept ones alone when it answers false, and touches
  neither another identifier nor the configuration. With \<open>limit = 3\<close> and
  \<open>window = 60\<close>: three calls within one second are allowed, a fourth within that
  second is denied, and a call 61 seconds after the first is allowed again.
\<close>

theorem allow_request_sliding_window:
  "fst (allow_request now k rl) =
     (int (length (filter (\<lambda>t. now - t < real_of_int (window rl)) (requests_of rl k))) < limit rl)
   \<and> requests_of (snd (allow_request now k rl)) k =
       (if int (length (filter (\<lambda>t. now - t < real_of_int (window rl)) (requests_of rl k))) < limit rl
        then filter (\<lambda>t. now - t < real_of_int (window rl)) (requests_of rl k) @ [now]
        else filter (\<lambda>t. now - t < real_of_int (window rl)) (requests_of rl k))
   \<and> (\<forall>k'. k' \<noteq> k \<longrightarrow> requests (snd (allow_request now k rl)) k' = requests rl k')
   \<and> limit (snd (allow_request now k rl)) = limit rl
   \<and> window (snd (allow_request now k rl)) = window rl
   \<and> (t0 \<le> t1 \<and> t1 \<le> t2 \<and> t2 \<le> t3 \<and> t3 < t0 + 1 \<and> t0 + 61 \<le> t4 \<longrightarrow>
        fst (allow_requests [(t0, x), (t1, x), (t2, x), (t3, x), (t4, x)] (RateLimiter 3 60)) =
          [True, True, True, False, True])"
proof -
  have step: "fst (allow_request now k rl) =
     (int (length (filter (\<lambda>t. now - t < real_of_int (window rl)) (requests_of rl k))) < limit rl)
   \<and> requests_of (snd (allow_request now k rl)) k =
       (if int (length (filter (\<lambda>t. now - t < real_of_int (window rl)) (requests_of rl k))) < limit rl
        then filter (\<lambda>t. now - t < real_of_int (window rl)) (requests_of rl k) @ [now]
        else filter (\<lambda>t. now - t < real_of_int (window rl)) (requests_of rl k))"
    by (simp add: allow_request_def Let_def requests_of_def)
  have frame: "\<forall>k'. k' \<noteq> k \<longrightarrow> requests (snd (allow_request now k rl)) k' = requests rl k'"
    by (simp add: allow_request_def Let_def)
  have cfg: "limit (snd (allow_request now k rl)) = limit rl
      \<and> window (snd (allow_request now k rl)) = window rl"
    by (simp add: allow_request_def Let_def)
  show ?thesis using step frame cfg burst_then_wait [of t0 t1 t2 t3 t4 x] by blast
qed

theorem allow_request_sliding_window_witness:
  "fst (allow_requests [(0, ''x''), (1/4, ''x''), (1/2, ''x''), (3/4, ''x''), (61, ''x'')]
         (RateLimiter 3 60)) = [True, True, True, False, True]
   \<and> fst (allow_request 100 ''x'' \<lparr>limit = 3, window = 60,
         requests = [''x'' \<mapsto> [30, 50, 70, 90], ''y'' \<mapsto> [99]]\<rparr>) = False
   \<and> requests_of (snd (allow_request 100 ''x'' \<lparr>limit = 3, window = 60,
         requests = [''x'' \<mapsto> [30, 50, 70, 90], ''y'' \<mapsto> [99]]\<rparr>)) ''x'' = [50, 70, 90]
   \<and> requests (snd (allow_request 100 ''x'' \<lparr>limit = 3, window = 60,
         requests = [''x'' \<mapsto> [30, 50, 70, 90], ''y'' \<mapsto> [99]]\<rparr>)) ''y'' = Some [99]"
proof -
  have a: "fst (allow_requests [(0, ''x''), (1/4, ''x''), (1/2, ''x''), (3/4, ''x''), (61, ''x'')]
         (RateLimiter 3 60)) = [True, True, True, False, True]"
    using allow_request_sliding_window [where ?t0.0 = 0 and ?t1.0 = "1/4" and ?t2.0 = "1/2"
        and ?t3.0 = "3/4" and ?t4.0 = 61 and x = "''x''"
        and rl = "RateLimiter 3 60 :: string rate_limiter"]
    by simp
  let ?rl = "\<lparr>limit = 3, window = 60, requests = [''x'' \<mapsto> [30, 50, 70, 90], ''y'' \<mapsto> [99]]\<rparr>"
  have b: "fst (allow_request 100 ''x'' ?rl) = False
     \<and> requests_of (snd (allow_request 100 ''x'' ?rl)) ''x'' = [50, 70, 90]
     \<and> requests (snd (allow_request 100 ''x'' ?rl)) ''y'' = Some [99]"
    using allow_request_sliding_window [where now = 100 and k = "''x''" and rl = ?rl
        and x = "''x''" and ?t0.0 = 0 and ?t1.0 = 0 and ?t2.0 = 0 and ?t3.0 = 0 and ?t4.0 = 0]
    by (simp add: requests_of_def)
  show ?thesis using a b by blast
qed

subsection \<open>C10: failures write nothing\<close>

text \<open>
  C10. Whenever the gate fails, for whichever reason, it leaves the table exactly
  as it was: the increment on the success path is its only write.
\<close>

theorem verify_token_failure_pure:
  "fst (verify_token cfg now token db) = Inl e \<Longrightarrow> snd (verify_token cfg now token db) = db"
  by (auto simp: verify_token_def split: option.splits sum.splits if_splits jwt_error.splits)

theorem verify_token_failure_pure_witness:
  "fst (verify_token demo_settings 100 (Some ''tok.u1'') [u1_license\<lparr>notes_used := 5\<rparr>, u2_license]) =
     Inl (HTTPException 403
       ''You have reached your monthly note generation limit. Please upgrade your plan.'')
   \<and> snd (verify_token demo_settings 100 (Some ''tok.u1'') [u1_license\<lparr>notes_used := 5\<rparr>, u2_license]) =
     [u1_license\<lparr>notes_used := 5\<rparr>, u2_license]"
proof -
  have f: "fst (verify_token demo_settings 100 (Some ''tok.u1'') [u1_license\<lparr>notes_used := 5\<rparr>, u2_license]) =
     Inl (HTTPException 403
       ''You have reached your monthly note generation limit. Please upgrade your plan.'')"
    by (simp add: verify_token_def u1_license_def u2_license_def demo_settings_def u1_claims_def
      strip_bearer_def fromtimestamp_def query_first_def HTTP_403_FORBIDDEN_def)
  from verify_token_failure_pure [OF f] f show ?thesis by simp
qed

end
